theory Spec2Isabelle
  imports Complex_Main "HOL-Library.Sublist" "HOL-Library.Multiset"
    "HOL-Library.Char_ord" "HOL-Library.List_Lexorder" "HOL-Library.Log_Nat"
begin

section \<open>Data model\<close>

text \<open>
  A prompt is the dictionary that \<^verbatim>\<open>add_prompt\<close> builds and that the JSON file holds.
  The key \<^verbatim>\<open>"id"\<close> is the field \<open>prompt_id\<close> (\<open>id\<close> is the identity function
  of HOL); every other field carries the name of its key. Python's \<^verbatim>\<open>int\<close> is \<open>int\<close>.
  A string is a list of characters, and the record is polymorphic in the type \<open>'c\<close> of
  characters. The literals of the source and the examples are written with the 8-bit
  \<open>char\<close> (code points below 256, ordered by code point as Python compares \<^verbatim>\<open>str\<close>);
  where the behaviour depends on characters beyond that range, as in the search, \<open>'c\<close>
  is \<open>nat\<close> and a string is the list of its Unicode code points. The rating is a number
  that is \<^verbatim>\<open>0\<close> at creation and a binary64 float after the first vote; it is modelled
  by the rational it denotes (infinities and NaN are outside the model).
\<close>

record 'c prompt_record =
  prompt_id :: int
  title :: "'c list"
  category :: "'c list"
  prompt :: "'c list"
  author :: "'c list"
  tags :: "'c list list"
  rating :: rat
  votes :: int
  usage_count :: int
  created_at :: "'c list"
  comments :: "'c list list"

text \<open>
  The persisted resource \<^verbatim>\<open>DATA_FILE\<close>: absent (\<open>None\<close>) or holding the list of
  prompts that \<^verbatim>\<open>json.dump\<close> wrote (\<open>Some\<close>).
\<close>

type_synonym 'c store = "'c prompt_record list option"

datatype py_error = ZeroDivisionError

section \<open>Floating-point arithmetic\<close>

text \<open>
  Python's \<^verbatim>\<open>float\<close> is IEEE 754 binary64 and every operation returns the exact
  result rounded to the nearest float, ties to even. \<open>round_double\<close> is that rounding
  to 53 significant bits; it agrees with binary64 on every result whose magnitude lies
  in the normal range (no overflow, no subnormals). Integer operands below \<open>2 ^ 53\<close>
  convert to floats exactly, so an operation on a float and such an \<^verbatim>\<open>int\<close> is the
  rounded exact result as well.
\<close>

definition round_half_even :: "rat \<Rightarrow> int" where
  "round_half_even x =
     (let f = \<lfloor>x\<rfloor>; r = x - of_int f
      in if r < 1 / 2 then f
         else if 1 / 2 < r then f + 1
         else if even f then f else f + 1)"

definition binary_exponent :: "rat \<Rightarrow> int" where
  "binary_exponent x =
     (let (p, q) = quotient_of \<bar>x\<bar>; d = bitlen p - bitlen q
      in if 2 powi d \<le> \<bar>x\<bar> then d else d - 1)"

definition round_double :: "rat \<Rightarrow> rat" where
  "round_double x =
     (if x = 0 then 0
      else let u = 2 powi (binary_exponent x - 52)
           in of_int (round_half_even (x / u)) * u)"

definition fmul :: "rat \<Rightarrow> rat \<Rightarrow> rat" where
  "fmul a b = round_double (a * b)"

definition fadd :: "rat \<Rightarrow> rat \<Rightarrow> rat" where
  "fadd a b = round_double (a + b)"

definition fdiv :: "rat \<Rightarrow> rat \<Rightarrow> py_error + rat" where
  "fdiv a b = (if b = 0 then Inl ZeroDivisionError else Inr (round_double (a / b)))"

section \<open>Store\<close>

definition load_prompts :: "'c store \<Rightarrow> 'c prompt_record list" where
  "load_prompts st = (case st of Some prompts \<Rightarrow> prompts | None \<Rightarrow> [])"

definition save_prompts :: "'c prompt_record list \<Rightarrow> 'c store \<Rightarrow> 'c store" where
  "save_prompts prompts st = Some prompts"

section \<open>Mutators\<close>

text \<open>
  \<^verbatim>\<open>add_prompt\<close> reads the clock once (\<^verbatim>\<open>datetime.now().isoformat()\<close>); the value
  read is the parameter \<open>now\<close>. It returns the new record and the store it wrote.
\<close>

definition add_prompt ::
  "'c list \<Rightarrow> 'c list \<Rightarrow> 'c list \<Rightarrow> 'c list \<Rightarrow> 'c list \<Rightarrow> 'c list list \<Rightarrow> 'c store
     \<Rightarrow> 'c prompt_record \<times> 'c store" where
  "add_prompt now title_v category_v prompt_v author_v tags_v st =
     (let prompts = load_prompts st;
          new_prompt = \<lparr>prompt_id = int (length prompts) + 1,
                        title = title_v,
                        category = category_v,
                        prompt = prompt_v,
                        author = author_v,
                        tags = tags_v,
                        rating = 0,
                        votes = 0,
                        usage_count = 0,
                        created_at = now,
                        comments = []\<rparr>
      in (new_prompt, save_prompts (prompts @ [new_prompt]) st))"

text \<open>
  The loop of \<^verbatim>\<open>update_usage\<close>: the first prompt with the id is changed, then
  \<^verbatim>\<open>break\<close> leaves the rest of the list alone.
\<close>

fun update_usage_loop :: "int \<Rightarrow> 'c prompt_record list \<Rightarrow> 'c prompt_record list" where
  "update_usage_loop i [] = []"
| "update_usage_loop i (p # ps) =
     (if prompt_id p = i then p\<lparr>usage_count := usage_count p + 1\<rparr> # ps
      else p # update_usage_loop i ps)"

definition update_usage :: "int \<Rightarrow> 'c store \<Rightarrow> 'c store" where
  "update_usage i st = save_prompts (update_usage_loop i (load_prompts st)) st"

text \<open>
  The loop of \<^verbatim>\<open>add_rating\<close>. The division raises \<^verbatim>\<open>ZeroDivisionError\<close> when
  \<^verbatim>\<open>votes + 1\<close> is zero; the exception leaves the function before \<^verbatim>\<open>save_prompts\<close>,
  so nothing is written then.
\<close>

fun add_rating_loop ::
  "int \<Rightarrow> int \<Rightarrow> 'c prompt_record list \<Rightarrow> py_error + 'c prompt_record list" where
  "add_rating_loop i r [] = Inr []"
| "add_rating_loop i r (p # ps) =
     (if prompt_id p = i then
        (case fdiv (fadd (fmul (rating p) (of_int (votes p))) (of_int r)) (of_int (votes p + 1)) of
           Inl e \<Rightarrow> Inl e
         | Inr x \<Rightarrow> Inr (p\<lparr>rating := x, votes := votes p + 1\<rparr> # ps))
      else (case add_rating_loop i r ps of
              Inl e \<Rightarrow> Inl e
            | Inr ps' \<Rightarrow> Inr (p # ps')))"

definition add_rating :: "int \<Rightarrow> int \<Rightarrow> 'c store \<Rightarrow> py_error + 'c store" where
  "add_rating i r st =
     (case add_rating_loop i r (load_prompts st) of
        Inl e \<Rightarrow> Inl e
      | Inr prompts \<Rightarrow> Inr (save_prompts prompts st))"

text \<open>Rating a prompt several times in a row; the first exception ends the run.\<close>

fun add_ratings :: "int \<Rightarrow> int list \<Rightarrow> 'c store \<Rightarrow> py_error + 'c store" where
  "add_ratings i [] st = Inr st"
| "add_ratings i (r # rs) st =
     (case add_rating i r st of Inl e \<Rightarrow> Inl e | Inr st' \<Rightarrow> add_ratings i rs st')"

text \<open>
  The mean that the rating is claimed to equal, as Python computes it for a list of
  \<^verbatim>\<open>int\<close> ratings: \<^verbatim>\<open>sum(rs) / len(rs)\<close>, an exact sum and one rounded division
  (\<open>0\<close> for the empty list, the rating of a prompt nobody has rated).
\<close>

definition py_mean :: "int list \<Rightarrow> rat" where
  "py_mean rs = round_double (of_int (sum_list rs) / of_int (int (length rs)))"

text \<open>
  \<open>totals_exact s n rs\<close>: starting from \<open>n\<close> votes with total \<open>s\<close>, at every step the
  float expression \<^verbatim>\<open>rating * votes + r\<close> of \<^verbatim>\<open>add_rating\<close> gives back the exact new
  total, that is, the multiplication undoes the earlier division without rounding error.
\<close>

fun totals_exact :: "int \<Rightarrow> int \<Rightarrow> int list \<Rightarrow> bool" where
  "totals_exact s n [] = True"
| "totals_exact s n (r # rs) =
     (fadd (fmul (round_double (of_int s / of_int n)) (of_int n)) (of_int r) = of_int (s + r)
      \<and> totals_exact (s + r) (n + 1) rs)"

section \<open>Submit page\<close>

text \<open>
  The handler of the submit form (the body of \<^verbatim>\<open>if submitted:\<close>). \<^verbatim>\<open>all([...])\<close>
  tests that each of the four strings is non-empty. The result is the message that
  \<^verbatim>\<open>st.error\<close> shows (\<open>Inl\<close>) or the record that \<open>add_prompt\<close> created (\<open>Inr\<close>),
  with the store afterwards. The handler is written for strings of code points below
  256; \<open>is_space\<close> holds of the white space that \<^verbatim>\<open>str.strip\<close> removes there.
\<close>

definition is_space :: "char \<Rightarrow> bool" where
  "is_space c = (of_char c \<in> {9, 10, 11, 12, 13, 28, 29, 30, 31, 32, 133, 160 :: nat})"

definition strip :: "string \<Rightarrow> string" where
  "strip s = rev (dropWhile is_space (rev (dropWhile is_space s)))"

fun split_comma :: "string \<Rightarrow> string list" where
  "split_comma [] = [[]]"
| "split_comma (c # cs) =
     (if c = CHR '','' then [] # split_comma cs
      else (case split_comma cs of w # ws \<Rightarrow> (c # w) # ws | [] \<Rightarrow> [[c]]))"

definition submit_prompt ::
  "string \<Rightarrow> string \<Rightarrow> string \<Rightarrow> string \<Rightarrow> string \<Rightarrow> string \<Rightarrow> char store
     \<Rightarrow> (string + char prompt_record) \<times> char store" where
  "submit_prompt now title_v category_v prompt_v author_v tags_input st =
     (if \<not> (title_v \<noteq> [] \<and> category_v \<noteq> [] \<and> prompt_v \<noteq> [] \<and> author_v \<noteq> [])
      then (Inl ''Please fill all required fields (*)'', st)
      else (let tags_v = [strip tag. tag \<leftarrow> split_comma tags_input, strip tag \<noteq> []];
                (new_prompt, st') = add_prompt now title_v category_v prompt_v author_v tags_v st
            in (Inr new_prompt, st')))"

text \<open>
  The id that the specification expects of a new record: the largest id of the collection
  plus one, or one for the empty collection.
\<close>

definition expected_id :: "'c prompt_record list \<Rightarrow> int" where
  "expected_id prompts =
     (if prompts = [] then 1 else Max (set (map prompt_id prompts)) + 1)"

section \<open>Browse page\<close>

text \<open>
  \<^verbatim>\<open>sorted(xs, key=f, reverse=True)\<close>: Python's sort is stable and \<^verbatim>\<open>reverse=True\<close>
  keeps it so; the list is reversed, sorted stably in ascending order of the key, and the
  result reversed. \<open>sort_key\<close> is a stable insertion sort.
\<close>

definition sorted_reverse :: "('a \<Rightarrow> 'k::linorder) \<Rightarrow> 'a list \<Rightarrow> 'a list" where
  "sorted_reverse key xs = rev (sort_key key (rev xs))"

text \<open>
  The \<^verbatim>\<open>if\<close>/\<^verbatim>\<open>elif\<close> chain on \<^verbatim>\<open>sort_by\<close>; any other value leaves the list as it
  is.
\<close>

definition sort_prompts ::
  "string \<Rightarrow> ('c::linorder) prompt_record list \<Rightarrow> 'c prompt_record list" where
  "sort_prompts sort_by prompts =
     (if sort_by = ''Most Recent'' then sorted_reverse created_at prompts
      else if sort_by = ''Most Used'' then sorted_reverse usage_count prompts
      else if sort_by = ''Highest Rated'' then sorted_reverse rating prompts
      else prompts)"

text \<open>
  What the specification asks of a sort by a key: the same records, in descending order
  of the key, records with equal keys in their original relative order.
\<close>

definition stable_descending :: "('a \<Rightarrow> 'k::linorder) \<Rightarrow> 'a list \<Rightarrow> 'a list \<Rightarrow> bool" where
  "stable_descending key xs ys \<longleftrightarrow>
     mset ys = mset xs \<and> sorted_wrt (\<lambda>a b. key b \<le> key a) ys \<and>
     (\<forall>k \<in> set (map key xs). filter (\<lambda>p. key p = k) ys = filter (\<lambda>p. key p = k) xs)"

text \<open>
  The search filter. \<^verbatim>\<open>a in b\<close> on strings holds when \<open>a\<close> is a contiguous part of
  \<open>b\<close>, which is \<open>sublist a b\<close>; \<^verbatim>\<open>if search:\<close> tests that the string is non-empty.
  \<^verbatim>\<open>str.lower\<close> is a builtin whose result depends on the Unicode tables of the
  interpreter and on the neighbours of a character; the filter takes it as the parameter
  \<open>lower\<close>.
\<close>

definition search_prompts ::
  "('c list \<Rightarrow> 'c list) \<Rightarrow> 'c list \<Rightarrow> 'c prompt_record list \<Rightarrow> 'c prompt_record list" where
  "search_prompts lower search prompts =
     (if search \<noteq> [] then
        (let search_lower = lower search
         in filter (\<lambda>p. sublist search_lower (lower (title p)) \<or>
                         sublist search_lower (lower (prompt p)) \<or>
                         list_ex (\<lambda>tag. sublist search_lower (lower tag)) (tags p)) prompts)
      else prompts)"

text \<open>
  The specification's words: \<open>t\<close> is a case-insensitive substring of \<open>s\<close> when some
  contiguous part of \<open>s\<close> is \<open>t\<close> up to the case of its letters, that is, has the same
  lower-case form. The contiguous parts of a string are the prefixes of its suffixes.
\<close>

definition parts :: "'a list \<Rightarrow> 'a list list" where
  "parts s = concat (map prefixes (suffixes s))"

definition ci_substring :: "('c list \<Rightarrow> 'c list) \<Rightarrow> 'c list \<Rightarrow> 'c list \<Rightarrow> bool" where
  "ci_substring lower t s \<longleftrightarrow> (\<exists>u \<in> set (parts s). lower u = lower t)"

text \<open>
  \<^verbatim>\<open>str.lower\<close> on strings of code points below 256 and the Greek capitals alpha (913)
  and sigma (931), as CPython computes it. The letters A to Z and the accented capitals
  \<open>0xC0\<close> to \<open>0xDE\<close> (the multiplication sign \<open>0xD7\<close> apart) move up by 32, as does
  alpha. A capital sigma becomes the final sigma (962) when, skipping case-ignorable
  characters, a cased letter stands before it and no cased letter stands after it, and
  the small sigma (963) otherwise. \<open>cased\<close> and \<open>case_ignorable\<close> are the two Unicode
  properties on these code points. Other code points are outside this table.
\<close>

definition lower_char :: "nat \<Rightarrow> nat" where
  "lower_char n =
     (if (65 \<le> n \<and> n \<le> 90) \<or> (192 \<le> n \<and> n \<le> 222 \<and> n \<noteq> 215) then n + 32
      else if n = 913 then 945 else n)"

definition cased :: "nat \<Rightarrow> bool" where
  "cased n \<longleftrightarrow>
     (65 \<le> n \<and> n \<le> 90) \<or> (97 \<le> n \<and> n \<le> 122) \<or> n = 170 \<or> n = 181 \<or> n = 186 \<or>
     (192 \<le> n \<and> n \<le> 255 \<and> n \<noteq> 215 \<and> n \<noteq> 247) \<or> n = 913 \<or> n = 931"

definition case_ignorable :: "nat \<Rightarrow> bool" where
  "case_ignorable n \<longleftrightarrow> n \<in> {39, 46, 58, 94, 96, 168, 173, 175, 180, 183, 184}"

text \<open>\<open>before\<close> holds the characters in front of the sigma, the nearest first.\<close>

definition final_sigma :: "nat list \<Rightarrow> nat list \<Rightarrow> bool" where
  "final_sigma before after \<longleftrightarrow>
     (case dropWhile case_ignorable before of [] \<Rightarrow> False | c # _ \<Rightarrow> cased c) \<and>
     (case dropWhile case_ignorable after of [] \<Rightarrow> True | c # _ \<Rightarrow> \<not> cased c)"

fun lower_from :: "nat list \<Rightarrow> nat list \<Rightarrow> nat list" where
  "lower_from before [] = []"
| "lower_from before (c # after) =
     (if c = 931 then (if final_sigma before after then 962 else 963) else lower_char c)
       # lower_from (c # before) after"

definition py_lower :: "nat list \<Rightarrow> nat list" where
  "py_lower s = lower_from [] s"

section \<open>Statistics page\<close>








definition top_used :: "'c prompt_record list \<Rightarrow> 'c prompt_record list" where
  "top_used prompts = take 5 (sorted_reverse usage_count prompts)"

definition top_rated :: "'c prompt_record list \<Rightarrow> 'c prompt_record list" where
  "top_rated prompts =
     take 5 (sorted_reverse rating (filter (\<lambda>p. 0 < votes p) prompts))"

section \<open>Example data\<close>

definition example_prompt :: "int \<Rightarrow> int \<Rightarrow> char prompt_record" where
  "example_prompt i u =
     \<lparr>prompt_id = i, title = ''T'', category = ''Testing'', prompt = ''body'',
      author = ''Alice'', tags = [''x''], rating = 0, votes = 0, usage_count = u,
      created_at = ''2025-01-01T00:00:00'', comments = []\<rparr>"

definition unicode_prompt :: "int \<Rightarrow> nat list \<Rightarrow> nat prompt_record" where
  "unicode_prompt i t =
     \<lparr>prompt_id = i, title = t, category = map of_char ''Testing'',
      prompt = map of_char ''body'', author = map of_char ''Alice'',
      tags = [map of_char ''x''], rating = 0, votes = 0, usage_count = 0,
      created_at = map of_char ''2025-01-01T00:00:00'', comments = []\<rparr>"

section \<open>The rounding\<close>

text \<open>
  \<open>round_double\<close> is rounding to nearest on the grid of numbers with 53 significant
  bits: the exponent it picks brackets the argument, the result is at most half a unit in
  the last place away, and a number on the grid, every integer below \<open>2 ^ 53\<close> among
  them, is returned as it is.
\<close>

lemma pow_bitlen:
  assumes "0 < (p::int)"
  shows "2 powi (bitlen p - 1) \<le> (of_int p :: rat)" "(of_int p :: rat) < 2 powi bitlen p"
proof -
  from bitlen_bounds [OF assms] have a: "2 ^ nat (bitlen p - 1) \<le> p" and b: "p < 2 ^ nat (bitlen p)"
    by simp_all
  from assms have c: "1 \<le> bitlen p"
    by (metis bitlen_eq_zero_iff bitlen_nonneg linorder_not_less not_le_imp_less zle_add1_eq_le zless_add1_eq add_0)
  from a have "(of_int (2 ^ nat (bitlen p - 1)) :: rat) \<le> of_int p"
    by (simp only: of_int_le_iff)
  then show "2 powi (bitlen p - 1) \<le> (of_int p :: rat)"
    using c by (simp add: power_int_def)
  from b have "(of_int p :: rat) < of_int (2 ^ nat (bitlen p))"
    by (simp only: of_int_less_iff)
  then show "(of_int p :: rat) < 2 powi bitlen p"
    using c by (simp add: power_int_def)
qed

lemma binary_exponent_bounds:
  assumes "x \<noteq> 0"
  shows "2 powi binary_exponent x \<le> \<bar>x\<bar> \<and> \<bar>x\<bar> < 2 powi (binary_exponent x + 1)"
proof -
  obtain p q where pq: "quotient_of \<bar>x\<bar> = (p, q)" by (cases "quotient_of \<bar>x\<bar>")
  then have q: "0 < q" by (rule quotient_of_denom_pos)
  from pq have x: "\<bar>x\<bar> = of_int p / of_int q" by (rule quotient_of_div)
  from assms have "0 < \<bar>x\<bar>" by simp
  with x q have p: "0 < p"
    by (simp add: zero_less_divide_iff)
  define d where "d = bitlen p - bitlen q"
  have qr: "0 < (of_int q :: rat)" using q by simp
  have lo: "2 powi (d - 1) \<le> \<bar>x\<bar>"
  proof -
    have "2 powi (d - 1) * (of_int q :: rat) \<le> 2 powi (d - 1) * 2 powi bitlen q"
      using pow_bitlen(2) [OF q] by (simp add: less_imp_le)
    also have "\<dots> = 2 powi (bitlen p - 1)"
      by (simp add: d_def power_int_add [symmetric])
    also have "\<dots> \<le> of_int p" by (rule pow_bitlen(1) [OF p])
    finally show ?thesis using qr by (simp add: x pos_le_divide_eq)
  qed
  have hi: "\<bar>x\<bar> < 2 powi (d + 1)"
  proof -
    have "(of_int p :: rat) < 2 powi bitlen p" by (rule pow_bitlen(2) [OF p])
    also have "\<dots> = 2 powi (d + 1) * 2 powi (bitlen q - 1)"
      by (simp add: d_def power_int_add [symmetric])
    also have "\<dots> \<le> 2 powi (d + 1) * of_int q"
      using pow_bitlen(1) [OF q] by simp
    finally show ?thesis using qr by (simp add: x pos_divide_less_eq)
  qed
  show ?thesis
  proof (cases "2 powi d \<le> \<bar>x\<bar>")
    case True
    then have "binary_exponent x = d" by (simp add: binary_exponent_def pq d_def)
    with True hi show ?thesis by simp
  next
    case False
    then have "binary_exponent x = d - 1" by (simp add: binary_exponent_def pq d_def)
    with False lo show ?thesis by simp
  qed
qed

lemma round_half_even_error: "\<bar>of_int (round_half_even y) - y\<bar> \<le> 1 / 2"
proof -
  have "of_int \<lfloor>y\<rfloor> \<le> y" "y < of_int \<lfloor>y\<rfloor> + 1" by linarith+
  then show ?thesis
    by (auto simp: round_half_even_def Let_def)
qed

lemma round_double_error:
  "\<bar>round_double x - x\<bar> \<le> 2 powi (binary_exponent x - 53)"
proof (cases "x = 0")
  case True
  then show ?thesis by (simp add: round_double_def)
next
  case False
  define u :: rat where "u = 2 powi (binary_exponent x - 52)"
  have u: "0 < u" by (simp add: u_def)
  have "round_double x - x = (of_int (round_half_even (x / u)) - x / u) * u"
    using False u by (simp add: round_double_def u_def [symmetric] Let_def algebra_simps)
  then have "\<bar>round_double x - x\<bar> = \<bar>of_int (round_half_even (x / u)) - x / u\<bar> * u"
    using u by (simp add: abs_mult)
  also have "\<dots> \<le> 1 / 2 * u"
    using round_half_even_error [of "x / u"] u by (intro mult_right_mono) simp_all
  also have "\<dots> = 2 powi (binary_exponent x - 53)"
  proof -
    have "binary_exponent x - 52 = (binary_exponent x - 53) + 1" by simp
    moreover have "(2::rat) powi ((binary_exponent x - 53) + 1) = 2 powi (binary_exponent x - 53) * 2 powi 1"
      by (rule power_int_add) simp
    ultimately have "u = 2 powi (binary_exponent x - 53) * 2"
      unfolding u_def by simp
    then show ?thesis by simp
  qed
  finally show ?thesis .
qed

lemma round_half_even_of_int: "round_half_even (of_int k) = k"
  by (simp add: round_half_even_def)

lemma round_double_representable:
  assumes "\<bar>m\<bar> < 2 ^ 53"
  shows "round_double (of_int m * 2 powi e) = of_int m * 2 powi e"
proof (cases "m = 0")
  case True
  then show ?thesis by (simp add: round_double_def)
next
  case False
  define x :: rat where "x = of_int m * 2 powi e"
  define E where "E = binary_exponent x"
  have x0: "x \<noteq> 0" using False by (simp add: x_def)
  have ax: "\<bar>x\<bar> = of_int \<bar>m\<bar> * 2 powi e"
    by (simp add: x_def abs_mult)
  from assms have "(of_int \<bar>m\<bar> :: rat) < of_int (2 ^ 53)"
    by (simp only: of_int_less_iff)
  then have "\<bar>x\<bar> < 2 ^ 53 * 2 powi e"
    unfolding ax by (intro mult_strict_right_mono) simp_all
  also have "\<dots> = 2 powi (53 + e)"
    by (simp add: power_int_add)
  finally have "2 powi E < (2::rat) powi (53 + e)"
    using binary_exponent_bounds [OF x0] by (simp add: E_def)
  then have "E < 53 + e"
    by (metis linorder_not_less numeral_One numeral_le_iff power_int_increasing semiring_norm(69) one_le_numeral)
  then have k: "0 \<le> e - E + 52" by simp
  define n where "n = nat (e - E + 52)"
  have "(2::rat) powi e = 2 powi (E - 52) * 2 powi (e - E + 52)"
    by (simp add: power_int_add [symmetric])
  also have "(2::rat) powi (e - E + 52) = 2 ^ n"
    using k by (simp add: n_def power_int_def)
  finally have "x / 2 powi (E - 52) = of_int (m * 2 ^ n)"
    by (simp add: x_def)
  then have "round_half_even (x / 2 powi (E - 52)) = m * 2 ^ n"
    by (simp only: round_half_even_of_int)
  moreover have "of_int (m * 2 ^ n) * 2 powi (E - 52) = x"
    using \<open>x / 2 powi (E - 52) = of_int (m * 2 ^ n)\<close> by (simp add: field_simps)
  ultimately show ?thesis
    using x0 unfolding x_def [symmetric] by (simp add: round_double_def E_def [symmetric] Let_def)
qed




lemma round_double_of_int: "\<bar>m\<bar> < 2 ^ 53 \<Longrightarrow> round_double (of_int m) = of_int m"
  using round_double_representable [of m 0] by simp

section \<open>The first matching record\<close>

lemma first_match_exists:
  assumes "i \<in> prompt_id ` set ps"
  shows "\<exists>pre p suf. ps = pre @ p # suf \<and> prompt_id p = i \<and> (\<forall>q \<in> set pre. prompt_id q \<noteq> i)"
proof -
  from assms have "\<exists>p \<in> set ps. prompt_id p = i" by auto
  then obtain pre p suf where "ps = pre @ p # suf" "prompt_id p = i"
    "\<forall>q \<in> set pre. \<not> prompt_id q = i"
    by (auto dest!: split_list_first_prop)
  then show ?thesis by blast
qed

lemma update_usage_loop_first:
  "\<forall>q \<in> set pre. prompt_id q \<noteq> i \<Longrightarrow> prompt_id p = i \<Longrightarrow>
   update_usage_loop i (pre @ p # suf) = pre @ p\<lparr>usage_count := usage_count p + 1\<rparr> # suf"
  by (induction pre) auto

lemma update_usage_loop_absent:
  "i \<notin> prompt_id ` set ps \<Longrightarrow> update_usage_loop i ps = ps"
  by (induction ps) auto

lemma add_rating_loop_absent:
  "i \<notin> prompt_id ` set ps \<Longrightarrow> add_rating_loop i r ps = Inr ps"
  by (induction ps) auto

lemma add_rating_loop_first:
  "\<forall>q \<in> set pre. prompt_id q \<noteq> i \<Longrightarrow> prompt_id p = i \<Longrightarrow>
   add_rating_loop i r (pre @ p # suf) =
     (case fdiv (fadd (fmul (rating p) (of_int (votes p))) (of_int r)) (of_int (votes p + 1)) of
        Inl e \<Rightarrow> Inl e
      | Inr x \<Rightarrow> Inr (pre @ p\<lparr>rating := x, votes := votes p + 1\<rparr> # suf))"
  by (induction pre) (auto split: sum.splits)

lemma update_usage_funpow:
  assumes "\<forall>q \<in> set pre. prompt_id q \<noteq> i" "prompt_id p = i" "load_prompts st = pre @ p # suf"
  shows "load_prompts ((update_usage i ^^ k) st) =
           pre @ p\<lparr>usage_count := usage_count p + int k\<rparr> # suf"
proof (induction k)
  case 0
  show ?case using assms(3) by simp
next
  case (Suc k)
  have "prompt_id (p\<lparr>usage_count := usage_count p + int k\<rparr>) = i"
    using assms(2) by simp
  from update_usage_loop_first [OF assms(1) this, of suf] Suc show ?case
    by (simp add: update_usage_def save_prompts_def load_prompts_def add.assoc)
qed

lemma add_rating_first:
  assumes "\<forall>q \<in> set pre. prompt_id q \<noteq> i" "prompt_id p = i" "load_prompts st = pre @ p # suf"
  shows "add_rating i r st =
           (if votes p = - 1 then Inl ZeroDivisionError
            else Inr (Some (pre @ p\<lparr>rating := round_double (round_double (round_double
                   (rating p * of_int (votes p)) + of_int r) / of_int (votes p + 1)),
                 votes := votes p + 1\<rparr> # suf)))"
proof -
  have "(of_int (votes p + 1) = (0::rat)) = (votes p = - 1)"
    by (metis add.commute add_eq_0_iff2 of_int_eq_0_iff)
  then show ?thesis
    using add_rating_loop_first [OF assms(1,2), of r suf] assms(3)
    by (simp add: add_rating_def save_prompts_def fdiv_def fadd_def fmul_def)
qed

section \<open>Usage counting\<close>

text \<open>
  Claim C4. Whenever the id occurs in the collection, the collection splits at the first
  record with that id, and \<open>k\<close> calls of \<open>update_usage\<close> add exactly \<open>k\<close> to the usage
  count of that record and leave the rest of the collection as it was. When the id does
  not occur, a call leaves the collection that \<open>load_prompts\<close> returns unchanged.
\<close>

theorem update_usage_counts:
  "(i \<in> prompt_id ` set (load_prompts st) \<longrightarrow>
      (\<exists>pre p suf. load_prompts st = pre @ p # suf \<and> prompt_id p = i \<and>
         (\<forall>q \<in> set pre. prompt_id q \<noteq> i))) \<and>
   ((\<forall>q \<in> set pre. prompt_id q \<noteq> i) \<and> prompt_id p = i \<and> load_prompts st = pre @ p # suf \<longrightarrow>
      load_prompts ((update_usage i ^^ k) st) =
        pre @ p\<lparr>usage_count := usage_count p + int k\<rparr> # suf) \<and>
   (i \<notin> prompt_id ` set (load_prompts st) \<longrightarrow>
      load_prompts (update_usage i st) = load_prompts st)"
  using update_usage_funpow [of pre i p st suf k] update_usage_loop_absent [of i "load_prompts st"]
    first_match_exists [of i "load_prompts st"]
  by (simp add: update_usage_def save_prompts_def load_prompts_def)

theorem update_usage_counts_witness:
  "2 \<notin> prompt_id ` set [example_prompt 1 0] \<and>
   prompt_id (example_prompt 2 5) = 2 \<and>
   2 \<in> prompt_id ` set (load_prompts (Some [example_prompt 1 0, example_prompt 2 5, example_prompt 2 7])) \<and>
   load_prompts ((update_usage 2 ^^ 3) (Some [example_prompt 1 0, example_prompt 2 5, example_prompt 2 7]))
     = [example_prompt 1 0, example_prompt 2 8, example_prompt 2 7] \<and>
   9 \<notin> prompt_id ` set (load_prompts (None :: char store)) \<and>
   load_prompts (update_usage 9 (None :: char store)) = load_prompts None"
  using update_usage_counts [of 2 "Some [example_prompt 1 0, example_prompt 2 5, example_prompt 2 7]"
      "[example_prompt 1 0]" "example_prompt 2 5" "[example_prompt 2 7]" 3]
    update_usage_counts [of 9 None "[]" "example_prompt 9 0" "[]" 0]
  by (simp add: load_prompts_def example_prompt_def)

section \<open>Absent ids\<close>

text \<open>
  Claim C5. When the id does not occur in the collection, \<open>update_usage\<close> and
  \<open>add_rating\<close> raise nothing and write back the collection they loaded:
  \<open>update_usage\<close> has no failing operation at all, \<open>add_rating\<close> returns on the
  \<open>Inr\<close> side, and \<open>load_prompts\<close> gives the same collection afterwards.
\<close>

theorem absent_id_noop:
  "i \<notin> prompt_id ` set (load_prompts st) \<longrightarrow>
     update_usage i st = Some (load_prompts st) \<and>
     load_prompts (update_usage i st) = load_prompts st \<and>
     add_rating i r st = Inr (Some (load_prompts st)) \<and>
     (\<exists>st'. add_rating i r st = Inr st' \<and> load_prompts st' = load_prompts st)"
  using update_usage_loop_absent [of i "load_prompts st"] add_rating_loop_absent [of i "load_prompts st" r]
  by (simp add: update_usage_def add_rating_def save_prompts_def load_prompts_def)

theorem absent_id_noop_witness:
  "3 \<notin> prompt_id ` set (load_prompts (Some [example_prompt 1 0, example_prompt 2 5])) \<and>
   load_prompts (update_usage 3 (Some [example_prompt 1 0, example_prompt 2 5]))
     = [example_prompt 1 0, example_prompt 2 5] \<and>
   add_rating 3 4 (Some [example_prompt 1 0, example_prompt 2 5])
     = Inr (Some [example_prompt 1 0, example_prompt 2 5])"
  using absent_id_noop [of 3 "Some [example_prompt 1 0, example_prompt 2 5]" 4]
  by (simp add: load_prompts_def example_prompt_def)

section \<open>Frame of the in-place mutators\<close>

text \<open>
  Claim C10. Split the collection at the first record \<open>p\<close> with the id: \<open>pre\<close> holds no
  record with it, \<open>suf\<close> is everything after \<open>p\<close> (records with the same id included).
  Then \<open>update_usage\<close> writes \<open>pre\<close>, \<open>p\<close> with only \<open>usage_count\<close> changed, \<open>suf\<close>;
  \<open>add_rating\<close> writes \<open>pre\<close>, \<open>p\<close> with only \<open>rating\<close> and \<open>votes\<close> changed, \<open>suf\<close>,
  except that it raises before writing anything when \<open>votes p + 1\<close> is zero. So length and
  order are kept, and erasing the changed fields makes the collections before and after
  equal.
\<close>

theorem mutators_frame:
  "(\<forall>q \<in> set pre. prompt_id q \<noteq> i) \<and> prompt_id p = i \<and> load_prompts st = pre @ p # suf \<longrightarrow>
     load_prompts (update_usage i st) = pre @ p\<lparr>usage_count := usage_count p + 1\<rparr> # suf \<and>
     length (load_prompts (update_usage i st)) = length (load_prompts st) \<and>
     map (usage_count_update (\<lambda>_. 0)) (load_prompts (update_usage i st))
       = map (usage_count_update (\<lambda>_. 0)) (load_prompts st) \<and>
     add_rating i r st =
       (if votes p = - 1 then Inl ZeroDivisionError
        else Inr (Some (pre @ p\<lparr>rating := round_double (round_double (round_double
               (rating p * of_int (votes p)) + of_int r) / of_int (votes p + 1)),
             votes := votes p + 1\<rparr> # suf))) \<and>
     (\<forall>st'. add_rating i r st = Inr st' \<longrightarrow>
        length (load_prompts st') = length (load_prompts st) \<and>
        map (rating_update (\<lambda>_. 0) \<circ> votes_update (\<lambda>_. 0)) (load_prompts st')
          = map (rating_update (\<lambda>_. 0) \<circ> votes_update (\<lambda>_. 0)) (load_prompts st))"
proof (intro impI, elim conjE)
  assume a: "\<forall>q \<in> set pre. prompt_id q \<noteq> i" "prompt_id p = i" "load_prompts st = pre @ p # suf"
  have u: "load_prompts (update_usage i st) = pre @ p\<lparr>usage_count := usage_count p + 1\<rparr> # suf"
    using update_usage_loop_first [OF a(1,2), of suf] a(3)
    by (simp add: update_usage_def save_prompts_def load_prompts_def)
  note r = add_rating_first [OF a, of r]
  show "load_prompts (update_usage i st) = pre @ p\<lparr>usage_count := usage_count p + 1\<rparr> # suf \<and>
     length (load_prompts (update_usage i st)) = length (load_prompts st) \<and>
     map (usage_count_update (\<lambda>_. 0)) (load_prompts (update_usage i st))
       = map (usage_count_update (\<lambda>_. 0)) (load_prompts st) \<and>
     add_rating i r st =
       (if votes p = - 1 then Inl ZeroDivisionError
        else Inr (Some (pre @ p\<lparr>rating := round_double (round_double (round_double
               (rating p * of_int (votes p)) + of_int r) / of_int (votes p + 1)),
             votes := votes p + 1\<rparr> # suf))) \<and>
     (\<forall>st'. add_rating i r st = Inr st' \<longrightarrow>
        length (load_prompts st') = length (load_prompts st) \<and>
        map (rating_update (\<lambda>_. 0) \<circ> votes_update (\<lambda>_. 0)) (load_prompts st')
          = map (rating_update (\<lambda>_. 0) \<circ> votes_update (\<lambda>_. 0)) (load_prompts st))"
    unfolding u r using a(3) by (auto simp: load_prompts_def)
qed

theorem mutators_frame_witness:
  "2 \<notin> prompt_id ` set [example_prompt 1 0] \<and>
   prompt_id (example_prompt 2 5) = 2 \<and>
   load_prompts (update_usage 2 (Some [example_prompt 1 0, example_prompt 2 5, example_prompt 2 7]))
     = [example_prompt 1 0, example_prompt 2 6, example_prompt 2 7] \<and>
   add_rating 2 4 (Some [example_prompt 1 0, example_prompt 2 5, example_prompt 2 7])
     = Inr (Some [example_prompt 1 0,
                  (example_prompt 2 5)\<lparr>rating := round_double (round_double (round_double (0 * 0) + 4) / 1),
                                       votes := 1\<rparr>,
                  example_prompt 2 7])"
  using mutators_frame [of "[example_prompt 1 0]" 2 "example_prompt 2 5"
      "Some [example_prompt 1 0, example_prompt 2 5, example_prompt 2 7]" "[example_prompt 2 7]" 4]
  by (simp add: load_prompts_def example_prompt_def)

section \<open>Sorting\<close>

lemma sorted_reverse_mset: "mset (sorted_reverse key xs) = mset xs"
  by (simp add: sorted_reverse_def)

lemma sorted_reverse_desc: "sorted_wrt (\<lambda>a b. key b \<le> key a) (sorted_reverse key xs)"
proof -
  have "sorted (map key (sort_key key (rev xs)))" by simp
  then have "sorted_wrt (\<lambda>a b. key a \<le> key b) (sort_key key (rev xs))"
    by (simp add: sorted_map)
  then show ?thesis
    by (simp add: sorted_reverse_def sorted_wrt_rev)
qed

lemma sorted_reverse_stable:
  "filter (\<lambda>p. key p = k) (sorted_reverse key xs) = filter (\<lambda>p. key p = k) xs"
proof -
  have "filter (\<lambda>p. key p = k) (sort_key key (rev xs)) = filter (\<lambda>p. key p = k) (rev xs)"
    by (rule sort_key_stable)
  then show ?thesis
    by (simp add: sorted_reverse_def rev_filter [symmetric])
qed

lemma sorted_reverse_fixed:
  assumes "sorted_wrt (\<lambda>a b. key b \<le> key a) xs"
  shows "sorted_reverse key xs = xs"
proof -
  from assms have "sorted_wrt (\<lambda>a b. key a \<le> key b) (rev xs)"
    by (simp add: sorted_wrt_rev)
  then have "sorted (map key (rev xs))"
    by (simp add: sorted_map)
  then have "sort_key key (rev xs) = rev xs"
    by (rule sort_key_id_if_sorted)
  then show ?thesis by (simp add: sorted_reverse_def)
qed

lemma sorted_reverse_idem: "sorted_reverse key (sorted_reverse key xs) = sorted_reverse key xs"
  by (rule sorted_reverse_fixed) (rule sorted_reverse_desc)

lemma sorted_reverse_spec: "stable_descending key xs (sorted_reverse key xs)"
  by (simp add: stable_descending_def sorted_reverse_mset sorted_reverse_desc sorted_reverse_stable)

lemma stable_descending_filter:
  assumes "stable_descending key xs ys"
  shows "filter (\<lambda>p. key p = k) ys = filter (\<lambda>p. key p = k) xs"
proof (cases "k \<in> set (map key xs)")
  case True
  with assms show ?thesis by (auto simp: stable_descending_def)
next
  case False
  from assms have "set ys = set xs"
    by (metis stable_descending_def mset_eq_setD)
  with False have "filter (\<lambda>p. key p = k) ys = []" "filter (\<lambda>p. key p = k) xs = []"
    by (auto simp: filter_empty_conv)
  then show ?thesis by simp
qed

lemma stable_descending_unique:
  assumes "stable_descending key xs ys"
  shows "ys = sorted_reverse key xs"
proof -
  from assms have m: "mset ys = mset xs"
    and d: "sorted_wrt (\<lambda>a b. key b \<le> key a) ys"
    by (simp_all add: stable_descending_def)
  note f = stable_descending_filter [OF assms]
  have "sort_key key (rev xs) = rev ys"
  proof (rule properties_for_sort_key)
    show "mset (rev ys) = mset (rev xs)" using m by simp
    show "sorted (map key (rev ys))"
      using d by (simp add: sorted_map sorted_wrt_rev)
    fix k
    have "filter (\<lambda>p. key p = key k) (rev ys) = filter (\<lambda>p. key p = key k) (rev xs)"
      using f [of "key k"] by (simp add: rev_filter [symmetric])
    then show "filter (\<lambda>x. key k = key x) (rev ys) = filter (\<lambda>x. key k = key x) (rev xs)"
      by (simp add: eq_commute)
  qed
  then show ?thesis by (simp add: sorted_reverse_def)
qed

text \<open>
  Claim C6. The sort of the browse page knows three keys: \<open>Most Recent\<close> orders by
  \<open>created_at\<close>, \<open>Most Used\<close> by \<open>usage_count\<close>, \<open>Highest Rated\<close> by \<open>rating\<close>, each
  descending and stable (the same records, equal keys in their original relative order),
  and each result is the only list with these properties; any other key leaves the list
  as it is. Sorting twice gives the same list as sorting once, and a list already in
  descending order of usage is returned unchanged.
\<close>

theorem sort_prompts_spec:
  "sort_prompts ''Most Recent'' ps = sorted_reverse created_at ps \<and>
   sort_prompts ''Most Used'' ps = sorted_reverse usage_count ps \<and>
   sort_prompts ''Highest Rated'' ps = sorted_reverse rating ps \<and>
   stable_descending created_at ps (sort_prompts ''Most Recent'' ps) \<and>
   stable_descending usage_count ps (sort_prompts ''Most Used'' ps) \<and>
   stable_descending rating ps (sort_prompts ''Highest Rated'' ps) \<and>
   (stable_descending created_at ps ys \<longrightarrow> ys = sort_prompts ''Most Recent'' ps) \<and>
   (stable_descending usage_count ps ys \<longrightarrow> ys = sort_prompts ''Most Used'' ps) \<and>
   (stable_descending rating ps ys \<longrightarrow> ys = sort_prompts ''Highest Rated'' ps) \<and>
   sort_prompts sort_by (sort_prompts sort_by ps) = sort_prompts sort_by ps \<and>
   (sorted_wrt (\<lambda>a b. usage_count b \<le> usage_count a) ps \<longrightarrow> sort_prompts ''Most Used'' ps = ps) \<and>
   (sort_by \<notin> {''Most Recent'', ''Most Used'', ''Highest Rated''} \<longrightarrow> sort_prompts sort_by ps = ps)"
  using stable_descending_unique [of created_at ps ys] stable_descending_unique [of usage_count ps ys]
    stable_descending_unique [of rating ps ys]
  by (simp add: sort_prompts_def sorted_reverse_spec sorted_reverse_idem sorted_reverse_fixed)

theorem sort_prompts_spec_witness:
  "(''By Title'' \<notin> {''Most Recent'', ''Most Used'', ''Highest Rated''} \<and>
    sort_prompts ''By Title'' [example_prompt 1 5, example_prompt 2 7] = [example_prompt 1 5, example_prompt 2 7] \<and>
    sorted_wrt (\<lambda>a b. usage_count b \<le> usage_count a) [example_prompt 2 7, example_prompt 1 5, example_prompt 3 5] \<and>
    sort_prompts ''Most Used'' [example_prompt 2 7, example_prompt 1 5, example_prompt 3 5]
      = [example_prompt 2 7, example_prompt 1 5, example_prompt 3 5] \<and>
    stable_descending usage_count [example_prompt 1 5, example_prompt 2 7, example_prompt 3 5]
      [example_prompt 2 7, example_prompt 1 5, example_prompt 3 5] \<and>
    sort_prompts ''Most Used'' [example_prompt 1 5, example_prompt 2 7, example_prompt 3 5]
      = [example_prompt 2 7, example_prompt 1 5, example_prompt 3 5]) \<and>
   sort_prompts ''Most Recent''
     [example_prompt 1 0, (example_prompt 2 0)\<lparr>created_at := ''2025-03-01T12:00:00''\<rparr>,
      (example_prompt 3 0)\<lparr>created_at := ''2025-03-01T09:30:00''\<rparr>, example_prompt 4 0]
   = [(example_prompt 2 0)\<lparr>created_at := ''2025-03-01T12:00:00''\<rparr>,
      (example_prompt 3 0)\<lparr>created_at := ''2025-03-01T09:30:00''\<rparr>,
      example_prompt 1 0, example_prompt 4 0] \<and>
   sort_prompts ''Highest Rated''
     [(example_prompt 1 0)\<lparr>rating := 7 / 2\<rparr>, (example_prompt 2 0)\<lparr>rating := 9 / 2\<rparr>,
      (example_prompt 3 0)\<lparr>rating := 7 / 2\<rparr>]
   = [(example_prompt 2 0)\<lparr>rating := 9 / 2\<rparr>, (example_prompt 1 0)\<lparr>rating := 7 / 2\<rparr>,
      (example_prompt 3 0)\<lparr>rating := 7 / 2\<rparr>]"
proof -
  have r: "sort_prompts ''Most Recent''
     [example_prompt 1 0, (example_prompt 2 0)\<lparr>created_at := ''2025-03-01T12:00:00''\<rparr>,
      (example_prompt 3 0)\<lparr>created_at := ''2025-03-01T09:30:00''\<rparr>, example_prompt 4 0]
   = [(example_prompt 2 0)\<lparr>created_at := ''2025-03-01T12:00:00''\<rparr>,
      (example_prompt 3 0)\<lparr>created_at := ''2025-03-01T09:30:00''\<rparr>,
      example_prompt 1 0, example_prompt 4 0]"
    by code_simp
  have h: "sort_prompts ''Highest Rated''
     [(example_prompt 1 0)\<lparr>rating := 7 / 2\<rparr>, (example_prompt 2 0)\<lparr>rating := 9 / 2\<rparr>,
      (example_prompt 3 0)\<lparr>rating := 7 / 2\<rparr>]
   = [(example_prompt 2 0)\<lparr>rating := 9 / 2\<rparr>, (example_prompt 1 0)\<lparr>rating := 7 / 2\<rparr>,
      (example_prompt 3 0)\<lparr>rating := 7 / 2\<rparr>]"
    by code_simp
  have u: "''By Title'' \<notin> {''Most Recent'', ''Most Used'', ''Highest Rated''} \<and>
    sort_prompts ''By Title'' [example_prompt 1 5, example_prompt 2 7] = [example_prompt 1 5, example_prompt 2 7] \<and>
    sorted_wrt (\<lambda>a b. usage_count b \<le> usage_count a) [example_prompt 2 7, example_prompt 1 5, example_prompt 3 5] \<and>
    sort_prompts ''Most Used'' [example_prompt 2 7, example_prompt 1 5, example_prompt 3 5]
      = [example_prompt 2 7, example_prompt 1 5, example_prompt 3 5] \<and>
    stable_descending usage_count [example_prompt 1 5, example_prompt 2 7, example_prompt 3 5]
      [example_prompt 2 7, example_prompt 1 5, example_prompt 3 5] \<and>
    sort_prompts ''Most Used'' [example_prompt 1 5, example_prompt 2 7, example_prompt 3 5]
      = [example_prompt 2 7, example_prompt 1 5, example_prompt 3 5]"
    using sort_prompts_spec [of "[example_prompt 1 5, example_prompt 2 7]" "[]" "''By Title''"]
      sort_prompts_spec [of "[example_prompt 2 7, example_prompt 1 5, example_prompt 3 5]" "[]" "''By Title''"]
      sort_prompts_spec [of "[example_prompt 1 5, example_prompt 2 7, example_prompt 3 5]"
        "[example_prompt 2 7, example_prompt 1 5, example_prompt 3 5]" "''Most Used''"]
    by (simp add: example_prompt_def sort_prompts_def sorted_reverse_def)
  show ?thesis by (rule conjI [OF u conjI [OF r h]])
qed

section \<open>Top lists of the statistics page\<close>

text \<open>
  Claim C8. The list of most used prompts is the first five records of the collection
  sorted as the browse page sorts by usage (descending, stable). The list of highest rated
  prompts keeps the records with \<open>votes > 0\<close> only, sorts them as the browse page sorts
  by rating and takes the first five; no record with zero votes is in it, and for a
  collection without negative vote counts the records kept are exactly those whose vote
  count is not zero. The number of records taken is the constant 5 of the page.
\<close>

theorem top_lists_spec:
  "top_used ps = take 5 (sort_prompts ''Most Used'' ps) \<and>
   stable_descending usage_count ps (sort_prompts ''Most Used'' ps) \<and>
   length (top_used ps) = min 5 (length ps) \<and>
   top_rated ps = take 5 (sort_prompts ''Highest Rated'' (filter (\<lambda>p. 0 < votes p) ps)) \<and>
   stable_descending rating (filter (\<lambda>p. 0 < votes p) ps)
     (sort_prompts ''Highest Rated'' (filter (\<lambda>p. 0 < votes p) ps)) \<and>
   (\<forall>p \<in> set (top_rated ps). votes p \<noteq> 0 \<and> p \<in> set ps) \<and>
   ((\<forall>p \<in> set ps. 0 \<le> votes p) \<longrightarrow>
      filter (\<lambda>p. 0 < votes p) ps = filter (\<lambda>p. votes p \<noteq> 0) ps)"
proof -
  have "set (top_rated ps) \<subseteq> set (sorted_reverse rating (filter (\<lambda>p. 0 < votes p) ps))"
    unfolding top_rated_def by (rule set_take_subset)
  also have "\<dots> = set (filter (\<lambda>p. 0 < votes p) ps)"
    using sorted_reverse_mset [of rating "filter (\<lambda>p. 0 < votes p) ps"] by (metis mset_eq_setD)
  finally have a: "\<forall>p \<in> set (top_rated ps). votes p \<noteq> 0 \<and> p \<in> set ps" by auto
  have b: "(\<forall>p \<in> set ps. 0 \<le> votes p) \<longrightarrow>
      filter (\<lambda>p. 0 < votes p) ps = filter (\<lambda>p. votes p \<noteq> 0) ps"
    by (auto intro!: filter_cong)
  have c: "length (top_used ps) = min 5 (length ps)"
  proof -
    have "length (sorted_reverse usage_count ps) = length ps"
      using sorted_reverse_mset [of usage_count ps] by (metis size_mset)
    then show ?thesis by (simp add: top_used_def min.commute)
  qed
  have d: "top_used ps = take 5 (sort_prompts ''Most Used'' ps)"
    by (simp add: top_used_def sort_prompts_def)
  have e: "top_rated ps = take 5 (sort_prompts ''Highest Rated'' (filter (\<lambda>p. 0 < votes p) ps))"
    by (simp add: top_rated_def sort_prompts_def)
  have f: "stable_descending usage_count ps (sort_prompts ''Most Used'' ps)"
    by (simp add: sort_prompts_def sorted_reverse_spec)
  have g: "stable_descending rating (filter (\<lambda>p. 0 < votes p) ps)
     (sort_prompts ''Highest Rated'' (filter (\<lambda>p. 0 < votes p) ps))"
    by (simp add: sort_prompts_def sorted_reverse_spec)
  from a b c d e f g show ?thesis by blast
qed

theorem top_lists_spec_witness:
  "list_all (\<lambda>p. 0 \<le> votes p)
     [example_prompt 1 5, (example_prompt 2 7)\<lparr>rating := 3, votes := 2\<rparr>,
      (example_prompt 3 9)\<lparr>rating := 4, votes := 1\<rparr>] \<and>
   top_used [example_prompt 1 5, (example_prompt 2 7)\<lparr>rating := 3, votes := 2\<rparr>,
      (example_prompt 3 9)\<lparr>rating := 4, votes := 1\<rparr>]
     = [(example_prompt 3 9)\<lparr>rating := 4, votes := 1\<rparr>,
        (example_prompt 2 7)\<lparr>rating := 3, votes := 2\<rparr>, example_prompt 1 5] \<and>
   top_rated [example_prompt 1 5, (example_prompt 2 7)\<lparr>rating := 3, votes := 2\<rparr>,
      (example_prompt 3 9)\<lparr>rating := 4, votes := 1\<rparr>]
     = [(example_prompt 3 9)\<lparr>rating := 4, votes := 1\<rparr>,
        (example_prompt 2 7)\<lparr>rating := 3, votes := 2\<rparr>] \<and>
   list_all (\<lambda>p. votes p \<noteq> 0)
     (top_rated [example_prompt 1 5, (example_prompt 2 7)\<lparr>rating := 3, votes := 2\<rparr>,
      (example_prompt 3 9)\<lparr>rating := 4, votes := 1\<rparr>])"
  using top_lists_spec [of "[example_prompt 1 5, (example_prompt 2 7)\<lparr>rating := 3, votes := 2\<rparr>,
      (example_prompt 3 9)\<lparr>rating := 4, votes := 1\<rparr>]"]
  by (simp add: example_prompt_def sort_prompts_def sorted_reverse_def list_all_iff)

section \<open>Search\<close>

lemma sublist_map_iff:
  "sublist (map f t) (map f s) \<longleftrightarrow> (\<exists>u. sublist u s \<and> map f u = map f t)"
proof
  assume "sublist (map f t) (map f s)"
  then obtain ps ss where "map f s = ps @ map f t @ ss"
    by (auto simp: sublist_def)
  then obtain s1 r where r: "s = s1 @ r" "map f t @ ss = map f r"
    unfolding map_eq_append_conv by blast
  from r(2) obtain s2 s3 where "r = s2 @ s3" "map f t = map f s2"
    unfolding append_eq_map_conv by blast
  with r have "s = s1 @ s2 @ s3" "map f s2 = map f t" by simp_all
  then show "\<exists>u. sublist u s \<and> map f u = map f t" by auto
next
  assume "\<exists>u. sublist u s \<and> map f u = map f t"
  then obtain u ps ss where "s = ps @ u @ ss" "map f u = map f t"
    by (auto simp: sublist_def)
  then have "map f s = map f ps @ map f t @ map f ss" by simp
  then show "sublist (map f t) (map f s)"
    unfolding sublist_def by blast
qed

lemma set_parts: "set (parts s) = {u. sublist u s}"
  by (auto simp: parts_def sublist_altdef')

text \<open>The empty term, which the text input yields when nothing is typed, filters nothing.\<close>

lemma search_prompts_empty: "search_prompts lower [] ps = ps"
  by (simp add: search_prompts_def)

text \<open>
  Where \<open>lower\<close> acts character by character on a text and on its parts, the test of the
  filter on that text is the case-insensitive substring test.
\<close>

lemma ci_substring_charwise:
  assumes "lower t = map f t" and "\<And>u. sublist u s \<Longrightarrow> lower u = map f u"
  shows "ci_substring lower t s \<longleftrightarrow> sublist (lower t) (lower s)"
proof -
  have "lower s = map f s" by (rule assms(2)) simp
  moreover have "ci_substring lower t s \<longleftrightarrow> (\<exists>u. sublist u s \<and> map f u = map f t)"
    using assms by (auto simp: ci_substring_def set_parts)
  ultimately show ?thesis
    by (simp add: assms(1) sublist_map_iff)
qed

lemma search_prompts_charwise:
  assumes "search \<noteq> []" and "lower search = map f search"
    and "\<And>p s u. p \<in> set ps \<Longrightarrow> s \<in> set (title p # prompt p # tags p) \<Longrightarrow> sublist u s
           \<Longrightarrow> lower u = map f u"
  shows "search_prompts lower search ps =
           filter (\<lambda>p. ci_substring lower search (title p) \<or>
                       ci_substring lower search (prompt p) \<or>
                       (\<exists>tag \<in> set (tags p). ci_substring lower search tag)) ps"
proof -
  have "ci_substring lower search s \<longleftrightarrow> sublist (lower search) (lower s)"
    if "p \<in> set ps" "s \<in> set (title p # prompt p # tags p)" for p s
    using assms(2) assms(3) [OF that] by (rule ci_substring_charwise)
  then show ?thesis
    using assms(1) by (auto simp: search_prompts_def list_ex_iff Let_def intro!: filter_cong)
qed

text \<open>A text without a capital sigma is lowered character by character.\<close>

lemma lower_from_no_sigma: "931 \<notin> set s \<Longrightarrow> lower_from before s = map lower_char s"
  by (induction s arbitrary: before) auto

lemma py_lower_no_sigma: "931 \<notin> set s \<Longrightarrow> py_lower s = map lower_char s"
  by (simp add: py_lower_def lower_from_no_sigma)

text \<open>
  So on texts of this table without a capital sigma the filter is the case-insensitive
  substring filter.
\<close>

lemma search_prompts_no_sigma:
  assumes "search \<noteq> []" and "931 \<notin> set search"
    and "\<And>p s. p \<in> set ps \<Longrightarrow> s \<in> set (title p # prompt p # tags p) \<Longrightarrow> 931 \<notin> set s"
  shows "search_prompts py_lower search ps =
           filter (\<lambda>p. ci_substring py_lower search (title p) \<or>
                       ci_substring py_lower search (prompt p) \<or>
                       (\<exists>tag \<in> set (tags p). ci_substring py_lower search tag)) ps"
proof (rule search_prompts_charwise [where f = lower_char])
  show "search \<noteq> []" by (rule assms(1))
  show "py_lower search = map lower_char search"
    using assms(2) by (rule py_lower_no_sigma)
  fix p s u
  assume "p \<in> set ps" "s \<in> set (title p # prompt p # tags p)" "sublist u s"
  then have "931 \<notin> set u"
    using assms(3) set_mono_sublist by blast
  then show "py_lower u = map lower_char u" by (rule py_lower_no_sigma)
qed

text \<open>
  Claim C9. The search should keep exactly the records in which the term is a
  case-insensitive substring of the title, of the prompt body or of a tag. The filter
  lowers both sides with \<^verbatim>\<open>str.lower\<close> and misses the case in which the lower-case
  form of a letter depends on its neighbours: the term is a capital sigma, the title is
  a capital alpha followed by a capital sigma. The title contains the term as it is, so
  the term is a case-insensitive substring of the title, but \<^verbatim>\<open>str.lower\<close> turns the
  term into the small sigma and the end of the title into the final sigma, and the search
  returns nothing.
\<close>

theorem search_final_sigma:
  "py_lower [931] = [963] \<and> py_lower [913, 931] = [945, 962] \<and>
   sublist [931] [913, 931::nat] \<and>
   ci_substring py_lower [931] [913, 931] \<and>
   search_prompts py_lower [931] [unicode_prompt 1 [913, 931]] = []"
proof -
  have l: "py_lower [931] = [963]" "py_lower [913, 931] = [945, 962]"
    by code_simp+
  have s: "sublist [931] [913, 931::nat]"
    by code_simp
  have c: "ci_substring py_lower [931] [913, 931]"
    by code_simp
  have e: "search_prompts py_lower [931] [unicode_prompt 1 [913, 931]] = []"
    by code_simp
  from l s c e show ?thesis by simp
qed

section \<open>Average rating\<close>









section \<open>Adding a prompt\<close>

lemma Max_upto: "0 < n \<Longrightarrow> Max (set [1..int n]) = int n"
  by (intro Max_eqI) auto

lemma add_prompt_load:
  "load_prompts (snd (add_prompt now t c b a tg st)) =
     load_prompts st @ [fst (add_prompt now t c b a tg st)]"
  by (simp add: add_prompt_def Let_def save_prompts_def load_prompts_def)

lemma add_prompt_id:
  "prompt_id (fst (add_prompt now t c b a tg st)) = int (length (load_prompts st)) + 1"
  by (simp add: add_prompt_def Let_def)

text \<open>
  Claim C1, as amended. After \<open>add_prompt\<close> the loaded collection is the old one with
  the new record appended, so its size grew by exactly one, and the id of the new record
  is the old size plus one. That id is the largest old id plus one (one for the empty
  collection) exactly when the collection was empty or its largest id equalled its size;
  this is so whenever the ids were \<open>1, \<dots>, n\<close> in order, and then they are
  \<open>1, \<dots>, n + 1\<close> afterwards.
\<close>

theorem add_prompt_spec:
  "load_prompts (snd (add_prompt now t c b a tg st)) =
     load_prompts st @ [fst (add_prompt now t c b a tg st)] \<and>
   length (load_prompts (snd (add_prompt now t c b a tg st))) = length (load_prompts st) + 1 \<and>
   prompt_id (fst (add_prompt now t c b a tg st)) = int (length (load_prompts st)) + 1 \<and>
   (prompt_id (fst (add_prompt now t c b a tg st)) = expected_id (load_prompts st) \<longleftrightarrow>
      load_prompts st = [] \<or>
      Max (set (map prompt_id (load_prompts st))) = int (length (load_prompts st))) \<and>
   (map prompt_id (load_prompts st) = [1..int (length (load_prompts st))] \<longrightarrow>
      prompt_id (fst (add_prompt now t c b a tg st)) = expected_id (load_prompts st) \<and>
      map prompt_id (load_prompts (snd (add_prompt now t c b a tg st)))
        = [1..int (length (load_prompts (snd (add_prompt now t c b a tg st))))])"
proof -
  let ?ps = "load_prompts st"
  let ?new = "fst (add_prompt now t c b a tg st)"
  let ?st' = "snd (add_prompt now t c b a tg st)"
  note l = add_prompt_load [of now t c b a tg st]
  note i = add_prompt_id [of now t c b a tg st]
  have e: "prompt_id ?new = expected_id ?ps \<longleftrightarrow>
      ?ps = [] \<or> Max (set (map prompt_id ?ps)) = int (length ?ps)"
    unfolding i by (auto simp: expected_id_def)
  have c: "prompt_id ?new = expected_id ?ps \<and> map prompt_id (load_prompts ?st') = [1..int (length (load_prompts ?st'))]"
    if h: "map prompt_id ?ps = [1..int (length ?ps)]"
  proof
    show "prompt_id ?new = expected_id ?ps"
    proof (cases "?ps = []")
      case True
      then show ?thesis unfolding e by simp
    next
      case False
      then have "0 < length ?ps" by simp
      from Max_upto [OF this] h show ?thesis unfolding e by simp
    qed
    have "[1..int (length ?ps) + 1] = [1..int (length ?ps)] @ [int (length ?ps) + 1]"
      by (simp add: upto_rec2)
    then show "map prompt_id (load_prompts ?st') = [1..int (length (load_prompts ?st'))]"
      unfolding l using h i by (simp add: add.commute)
  qed
  from l i e c show ?thesis by simp
qed

theorem add_prompt_spec_witness:
  "map prompt_id (load_prompts (Some [example_prompt 1 0, example_prompt 2 4]))
     = [1..int (length (load_prompts (Some [example_prompt 1 0, example_prompt 2 4])))] \<and>
   prompt_id (fst (add_prompt ''2025-01-02T00:00:00'' ''T'' ''Testing'' ''body'' ''Alice'' [''x'']
      (Some [example_prompt 1 0, example_prompt 2 4]))) = 3 \<and>
   expected_id (load_prompts (Some [example_prompt 1 0, example_prompt 2 4])) = 3 \<and>
   map prompt_id (load_prompts (snd (add_prompt ''2025-01-02T00:00:00'' ''T'' ''Testing'' ''body''
      ''Alice'' [''x''] (Some [example_prompt 1 0, example_prompt 2 4])))) = [1, 2, 3] \<and>
   add_prompt ''2025-01-02T00:00:00'' ''T'' ''Testing'' ''body'' ''Alice'' [''x''] None
     = ((example_prompt 1 0)\<lparr>created_at := ''2025-01-02T00:00:00''\<rparr>,
        Some [(example_prompt 1 0)\<lparr>created_at := ''2025-01-02T00:00:00''\<rparr>])"
proof -
  have u: "[1..2] = [1, 2::int]" "[1..3] = [1, 2, 3::int]"
    by (simp_all add: upto.simps)
  have h: "map prompt_id (load_prompts (Some [example_prompt 1 0, example_prompt 2 4]))
     = [1..int (length (load_prompts (Some [example_prompt 1 0, example_prompt 2 4])))]"
    by (simp add: load_prompts_def example_prompt_def u)
  have n: "add_prompt ''2025-01-02T00:00:00'' ''T'' ''Testing'' ''body'' ''Alice'' [''x''] None
     = ((example_prompt 1 0)\<lparr>created_at := ''2025-01-02T00:00:00''\<rparr>,
        Some [(example_prompt 1 0)\<lparr>created_at := ''2025-01-02T00:00:00''\<rparr>])"
    by (simp add: add_prompt_def Let_def load_prompts_def save_prompts_def example_prompt_def)
  from add_prompt_spec [of "''2025-01-02T00:00:00''" "''T''" "''Testing''" "''body''" "''Alice''"
      "[''x'']" "Some [example_prompt 1 0, example_prompt 2 4]"] h
  have "prompt_id (fst (add_prompt ''2025-01-02T00:00:00'' ''T'' ''Testing'' ''body'' ''Alice'' [''x'']
      (Some [example_prompt 1 0, example_prompt 2 4])))
        = expected_id (load_prompts (Some [example_prompt 1 0, example_prompt 2 4]))"
    and "prompt_id (fst (add_prompt ''2025-01-02T00:00:00'' ''T'' ''Testing'' ''body'' ''Alice'' [''x'']
      (Some [example_prompt 1 0, example_prompt 2 4])))
        = int (length (load_prompts (Some [example_prompt 1 0, example_prompt 2 4]))) + 1"
    and "map prompt_id (load_prompts (snd (add_prompt ''2025-01-02T00:00:00'' ''T'' ''Testing'' ''body''
      ''Alice'' [''x''] (Some [example_prompt 1 0, example_prompt 2 4]))))
       = [1..int (length (load_prompts (snd (add_prompt ''2025-01-02T00:00:00'' ''T'' ''Testing'' ''body''
      ''Alice'' [''x''] (Some [example_prompt 1 0, example_prompt 2 4])))))]"
    by blast+
  with h n show ?thesis
    by (simp add: load_prompts_def add_prompt_def Let_def save_prompts_def u)
qed

text \<open>
  Claim C1 as stated fails for a collection whose largest id is not its size: with the
  ids 1 and 3 in the store the new record gets the id 3, not 4, and the id 3 occurs twice
  afterwards.
\<close>

theorem add_prompt_id_counterexample:
  "prompt_id (fst (add_prompt ''2025-01-02T00:00:00'' ''T'' ''Testing'' ''body'' ''Alice'' [''x'']
      (Some [example_prompt 1 0, example_prompt 3 0]))) = 3 \<and>
   expected_id (load_prompts (Some [example_prompt 1 0, example_prompt 3 0])) = 4 \<and>
   map prompt_id (load_prompts (snd (add_prompt ''2025-01-02T00:00:00'' ''T'' ''Testing'' ''body''
      ''Alice'' [''x''] (Some [example_prompt 1 0, example_prompt 3 0])))) = [1, 3, 3]"
  by (simp add: add_prompt_def Let_def load_prompts_def save_prompts_def example_prompt_def
      expected_id_def)

section \<open>Validation on submit\<close>

text \<open>
  Claim C2, as amended. The validation is in the handler of the submit form, not in
  \<open>add_prompt\<close>: when the title, the category, the prompt or the author is empty the
  handler shows an error message and returns the store untouched, without calling
  \<open>add_prompt\<close>; otherwise it parses the tags and calls \<open>add_prompt\<close>. \<open>add_prompt\<close>
  itself checks nothing and always writes the collection with the new record appended.
\<close>

theorem submit_prompt_validates:
  "((title_v = [] \<or> category_v = [] \<or> prompt_v = [] \<or> author_v = []) \<longrightarrow>
      submit_prompt now title_v category_v prompt_v author_v tags_input st
        = (Inl ''Please fill all required fields (*)'', st)) \<and>
   (title_v \<noteq> [] \<and> category_v \<noteq> [] \<and> prompt_v \<noteq> [] \<and> author_v \<noteq> [] \<longrightarrow>
      submit_prompt now title_v category_v prompt_v author_v tags_input st
        = (Inr (fst (add_prompt now title_v category_v prompt_v author_v
                  [strip tag. tag \<leftarrow> split_comma tags_input, strip tag \<noteq> []] st)),
           snd (add_prompt now title_v category_v prompt_v author_v
                  [strip tag. tag \<leftarrow> split_comma tags_input, strip tag \<noteq> []] st))) \<and>
   snd (add_prompt now title_v category_v prompt_v author_v tags_v st)
     = Some (load_prompts st @ [fst (add_prompt now title_v category_v prompt_v author_v tags_v st)])"
  by (auto simp: submit_prompt_def Let_def add_prompt_def save_prompts_def split: prod.splits)

theorem submit_prompt_validates_witness:
  "submit_prompt ''2025-01-02T00:00:00'' [] ''Testing'' ''body'' ''Alice'' ''x, y'' None
     = (Inl ''Please fill all required fields (*)'', None) \<and>
   submit_prompt ''2025-01-02T00:00:00'' ''T'' ''Testing'' ''body'' ''Alice'' '' x,, y '' None
     = (Inr ((example_prompt 1 0)\<lparr>tags := [''x'', ''y''], created_at := ''2025-01-02T00:00:00''\<rparr>),
        Some [(example_prompt 1 0)\<lparr>tags := [''x'', ''y''], created_at := ''2025-01-02T00:00:00''\<rparr>])"
proof -
  have t: "strip '' x'' = ''x''" "strip [] = []" "strip '' y '' = ''y''"
    by code_simp+
  show ?thesis
    using submit_prompt_validates [of "[]" "''Testing''" "''body''" "''Alice''"
        "''2025-01-02T00:00:00''" "''x, y''" None "[]"]
      submit_prompt_validates [of "''T''" "''Testing''" "''body''" "''Alice''"
        "''2025-01-02T00:00:00''" "'' x,, y ''" None "[]"]
    by (simp add: t add_prompt_def Let_def load_prompts_def save_prompts_def example_prompt_def)
qed

text \<open>
  Claim C2 as stated fails: called with four empty strings, \<open>add_prompt\<close> reports no
  error and writes a record whose required fields are all empty.
\<close>

theorem add_prompt_unvalidated_counterexample:
  "add_prompt ''2025-01-02T00:00:00'' [] [] [] [] [] None
     = (\<lparr>prompt_id = 1, title = [], category = [], prompt = [], author = [], tags = [],
         rating = 0, votes = 0, usage_count = 0, created_at = ''2025-01-02T00:00:00'',
         comments = []\<rparr>,
        Some [\<lparr>prompt_id = 1, title = [], category = [], prompt = [], author = [], tags = [],
         rating = 0, votes = 0, usage_count = 0, created_at = ''2025-01-02T00:00:00'',
         comments = []\<rparr>])"
  by (simp add: add_prompt_def Let_def load_prompts_def save_prompts_def)

section \<open>Running mean\<close>

lemma add_ratings_votes:
  assumes "\<forall>q \<in> set pre. prompt_id q \<noteq> i" "prompt_id p = i"
    "load_prompts st = pre @ p # suf" "0 \<le> votes p"
  shows "\<exists>st' x. add_ratings i rs st = Inr st' \<and>
           load_prompts st' = pre @ p\<lparr>rating := x, votes := votes p + int (length rs)\<rparr> # suf"
  using assms(2-4)
proof (induction rs arbitrary: st p)
  case Nil
  have "p\<lparr>rating := rating p, votes := votes p\<rparr> = p" by simp
  with Nil show ?case by (metis add_ratings.simps(1) add.right_neutral list.size(3) of_nat_0)
next
  case (Cons r rs)
  define x where "x = round_double (round_double (round_double
                   (rating p * of_int (votes p)) + of_int r) / of_int (votes p + 1))"
  define p' where "p' = p\<lparr>rating := x, votes := votes p + 1\<rparr>"
  from Cons.prems have "votes p \<noteq> - 1" by simp
  with add_rating_first [OF assms(1) Cons.prems(1,2), of r]
  have s: "add_rating i r st = Inr (Some (pre @ p' # suf))"
    by (simp add: p'_def x_def)
  have "prompt_id p' = i" "load_prompts (Some (pre @ p' # suf)) = pre @ p' # suf" "0 \<le> votes p'"
    using Cons.prems by (simp_all add: p'_def load_prompts_def)
  from Cons.IH [OF this] obtain st' y where
    "add_ratings i rs (Some (pre @ p' # suf)) = Inr st'"
    "load_prompts st' = pre @ p'\<lparr>rating := y, votes := votes p' + int (length rs)\<rparr> # suf"
    by blast
  moreover have "p'\<lparr>rating := y, votes := votes p' + int (length rs)\<rparr>
      = p\<lparr>rating := y, votes := votes p + int (length (r # rs))\<rparr>"
    by (simp add: p'_def add.assoc add.commute)
  ultimately have "add_ratings i (r # rs) st = Inr st' \<and>
      load_prompts st' = pre @ p\<lparr>rating := y, votes := votes p + int (length (r # rs))\<rparr> # suf"
    using s by simp
  then show ?case by blast
qed

lemma add_ratings_exact:
  assumes "\<forall>q \<in> set pre. prompt_id q \<noteq> i" "prompt_id p = i"
    "load_prompts st = pre @ p # suf" "0 \<le> n" "votes p = n"
    "rating p = round_double (of_int s / of_int n)" "totals_exact s n rs"
  shows "\<exists>st'. add_ratings i rs st = Inr st' \<and>
           load_prompts st' = pre @ p\<lparr>rating := round_double (of_int (s + sum_list rs) /
                 of_int (n + int (length rs))), votes := n + int (length rs)\<rparr> # suf"
  using assms(2-7)
proof (induction rs arbitrary: st p s n)
  case Nil
  have "p\<lparr>rating := rating p, votes := votes p\<rparr> = p" by simp
  with Nil show ?case by simp
next
  case (Cons r rs)
  define p' where "p' = p\<lparr>rating := round_double (of_int (s + r) / of_int (n + 1)), votes := n + 1\<rparr>"
  from Cons.prems have e: "round_double (round_double (rating p * of_int (votes p)) + of_int r)
      = of_int (s + r)" and t: "totals_exact (s + r) (n + 1) rs"
    by (simp_all add: fadd_def fmul_def)
  from Cons.prems have "votes p \<noteq> - 1" by simp
  with add_rating_first [OF assms(1) Cons.prems(1,2), of r] e Cons.prems(4)
  have st: "add_rating i r st = Inr (Some (pre @ p' # suf))"
    by (simp add: p'_def)
  have "prompt_id p' = i" "load_prompts (Some (pre @ p' # suf)) = pre @ p' # suf" "0 \<le> n + 1"
    "votes p' = n + 1" "rating p' = round_double (of_int (s + r) / of_int (n + 1))"
    using Cons.prems by (simp_all add: p'_def load_prompts_def)
  from Cons.IH [OF this t] obtain st' where
    "add_ratings i rs (Some (pre @ p' # suf)) = Inr st'"
    "load_prompts st' = pre @ p'\<lparr>rating := round_double (of_int (s + r + sum_list rs) /
                 of_int (n + 1 + int (length rs))), votes := n + 1 + int (length rs)\<rparr> # suf"
    by blast
  moreover have "p'\<lparr>rating := round_double (of_int (s + r + sum_list rs) /
                 of_int (n + 1 + int (length rs))), votes := n + 1 + int (length rs)\<rparr>
      = p\<lparr>rating := round_double (of_int (s + sum_list (r # rs)) /
                 of_int (n + int (length (r # rs)))), votes := n + int (length (r # rs))\<rparr>"
    by (simp add: p'_def add.assoc add.commute add.left_commute)
  ultimately show ?case using st by simp
qed

lemma round_double_0: "round_double 0 = 0"
  by (simp add: round_double_def)

text \<open>
  Claim C3, as amended. Each call of \<open>add_rating\<close> on a record that is found replaces
  the rating by \<open>(rating * votes + r) / (votes + 1)\<close>, every operation rounded to a
  float, and adds one to the votes. Starting from rating 0 and votes 0, \<open>k\<close> calls never
  raise and leave \<open>votes = k\<close>. The rating is then the mean of the \<open>k\<close> values whenever
  at every step the rounded \<open>rating * votes + r\<close> is the exact running total; nothing is
  said of the rating otherwise.
\<close>

theorem running_mean_spec:
  "((\<forall>q \<in> set pre. prompt_id q \<noteq> i) \<and> prompt_id p = i \<and> load_prompts st = pre @ p # suf \<and>
      votes p \<noteq> - 1 \<longrightarrow>
      add_rating i r st =
        Inr (Some (pre @ p\<lparr>rating := round_double (round_double (round_double
               (rating p * of_int (votes p)) + of_int r) / of_int (votes p + 1)),
             votes := votes p + 1\<rparr> # suf))) \<and>
   ((\<forall>q \<in> set pre. prompt_id q \<noteq> i) \<and> prompt_id p = i \<and> load_prompts st = pre @ p # suf \<and>
      rating p = 0 \<and> votes p = 0 \<longrightarrow>
      (\<exists>st' x. add_ratings i rs st = Inr st' \<and>
         load_prompts st' = pre @ p\<lparr>rating := x, votes := int (length rs)\<rparr> # suf) \<and>
      (totals_exact 0 0 rs \<longrightarrow>
         (\<exists>st'. add_ratings i rs st = Inr st' \<and>
            load_prompts st' = pre @ p\<lparr>rating := py_mean rs, votes := int (length rs)\<rparr> # suf)))"
proof (intro conjI impI)
  assume "(\<forall>q \<in> set pre. prompt_id q \<noteq> i) \<and> prompt_id p = i \<and> load_prompts st = pre @ p # suf \<and>
      votes p \<noteq> - 1"
  then show "add_rating i r st =
        Inr (Some (pre @ p\<lparr>rating := round_double (round_double (round_double
               (rating p * of_int (votes p)) + of_int r) / of_int (votes p + 1)),
             votes := votes p + 1\<rparr> # suf))"
    using add_rating_first [of pre i p st suf r] by simp
next
  assume a: "(\<forall>q \<in> set pre. prompt_id q \<noteq> i) \<and> prompt_id p = i \<and> load_prompts st = pre @ p # suf \<and>
      rating p = 0 \<and> votes p = 0"
  then show "\<exists>st' x. add_ratings i rs st = Inr st' \<and>
         load_prompts st' = pre @ p\<lparr>rating := x, votes := int (length rs)\<rparr> # suf"
    using add_ratings_votes [of pre i p st suf rs] by simp
  assume "totals_exact 0 0 rs"
  with a show "\<exists>st'. add_ratings i rs st = Inr st' \<and>
            load_prompts st' = pre @ p\<lparr>rating := py_mean rs, votes := int (length rs)\<rparr> # suf"
    using add_ratings_exact [of pre i p st suf 0 0 rs] by (simp add: py_mean_def round_double_0)
qed

theorem running_mean_spec_witness:
  "1 \<notin> prompt_id ` set [] \<and> prompt_id (example_prompt 1 0) = 1 \<and>
   rating (example_prompt 1 0) = 0 \<and> votes (example_prompt 1 0) = 0 \<and>
   totals_exact 0 0 [5, 3] \<and> py_mean [5, 3] = 4 \<and>
   add_rating 1 5 (Some [example_prompt 1 0])
     = Inr (Some [(example_prompt 1 0)\<lparr>rating := 5, votes := 1\<rparr>]) \<and>
   (\<exists>st'. add_ratings 1 [5, 3] (Some [example_prompt 1 0]) = Inr st' \<and>
      load_prompts st' = [(example_prompt 1 0)\<lparr>rating := 4, votes := 2\<rparr>])"
proof -
  have e: "totals_exact 0 0 [5, 3]" "py_mean [5, 3] = 4"
    "round_double (round_double (round_double (0 * 0) + 5) / 1) = 5"
    by code_simp+
  have h: "(\<forall>q \<in> set []. prompt_id q \<noteq> 1) \<and> prompt_id (example_prompt 1 0) = 1 \<and>
      load_prompts (Some [example_prompt 1 0]) = [] @ example_prompt 1 0 # [] \<and>
      votes (example_prompt 1 0) \<noteq> - 1"
    "(\<forall>q \<in> set []. prompt_id q \<noteq> 1) \<and> prompt_id (example_prompt 1 0) = 1 \<and>
      load_prompts (Some [example_prompt 1 0]) = [] @ example_prompt 1 0 # [] \<and>
      rating (example_prompt 1 0) = 0 \<and> votes (example_prompt 1 0) = 0"
    by (simp_all add: load_prompts_def example_prompt_def)
  note T = running_mean_spec [of "[]" 1 "example_prompt 1 0" "Some [example_prompt 1 0]" "[]" 5 "[5, 3]"]
  note a = T [THEN conjunct1, THEN mp, OF h(1)]
  note b = T [THEN conjunct2, THEN mp, OF h(2), THEN conjunct2, THEN mp, OF e(1)]
  have c: "rating (example_prompt 1 0) = 0" "votes (example_prompt 1 0) = 0"
    "prompt_id (example_prompt 1 0) = 1"
    by (simp_all add: example_prompt_def)
  from a have a': "add_rating 1 5 (Some [example_prompt 1 0])
     = Inr (Some [(example_prompt 1 0)\<lparr>rating := 5, votes := 1\<rparr>])"
    unfolding c using e(3) by simp
  from b have b': "\<exists>st'. add_ratings 1 [5, 3] (Some [example_prompt 1 0]) = Inr st' \<and>
      load_prompts st' = [(example_prompt 1 0)\<lparr>rating := 4, votes := 2\<rparr>]"
    unfolding e(2) by (simp del: add_ratings.simps)
  from a' b' c e show ?thesis by (simp del: add_ratings.simps)
qed

text \<open>
  Claim C3 as stated fails in floating point: after the ratings 1, 3, 5, 5, 5, 5, 5 the
  stored mean is the float nearest to \<open>29 / 7\<close>, and multiplying it by 7 does not give
  back 29, so the eighth rating 1 leaves a rating one unit in the last place above the
  mean \<open>30 / 8 = 3.75\<close>.
\<close>

theorem running_mean_counterexample:
  "add_ratings 1 [1, 3, 5, 5, 5, 5, 5, 1] (Some [example_prompt 1 0])
     = Inr (Some [(example_prompt 1 0)\<lparr>rating := 8444249301319681 / 2251799813685248, votes := 8\<rparr>]) \<and>
   py_mean [1, 3, 5, 5, 5, 5, 5, 1] = 15 / 4 \<and>
   (8444249301319681 / 2251799813685248 :: rat) \<noteq> 15 / 4"
  by code_simp

end
